theory Spec2Isabelle
  imports Main "HOL-Library.Log_Nat"
begin

section \<open>Data model of \<open>ha/lock.go\<close>\<close>

text \<open>
  The controller talks to three things it does not own: the governing context and the
  timers (through \<open>select\<close>), and the lock backend (through \<open>Acquire\<close> and \<open>Renew\<close>).
  Each is an oracle: a list of the answers the environment gives, consumed in order.
  An exhausted list means that the call or the \<open>select\<close> has not returned (yet); the
  outcome is then \<open>Blocked\<close>.
\<close>

text \<open>The branch a \<open>select\<close> takes: \<open>case <-ctx.Done()\<close> or the timer's channel.\<close>

datatype sel = Done | Tick

text \<open>A Go \<open>error\<close> value is its message; \<open>nil\<close> is \<open>None\<close>.\<close>

type_synonym error = string

datatype ticker = WaitTicker | RenewTicker

datatype level = Debug | Error

text \<open>What the controller does, and what it is answered, in program order.\<close>

datatype event =
    NewTimer int
  | TimerStop
  | NewTicker ticker int
  | TickerStop ticker
  | Select sel
  | CallAcquire string
  | RetAcquire string "error option"
  | CallRenew
  | RetRenew "error option"
  | WithCancel nat
  | Go nat
  | Cancel nat
  | Log level string "string list"

datatype 'a outcome = Ret 'a | Panic string | Blocked

text \<open>
  \<open>type HALockController struct\<close>; durations are \<open>time.Duration\<close>, a number of
  nanoseconds. The fields \<open>logger\<close> and \<open>lock\<close> are the trace and the oracle.
\<close>

record HALockController =
  ID :: string
  renewalPeriod :: int
  waitPeriod :: int
  randomDelay :: int

record env =
  sels :: "sel list"
  acqs :: "(string \<times> error option) list"
  rens :: "error option list"

section \<open>The controller\<close>

text \<open>
  \<open>func (hc *HALockController) wait(ctx)\<close>: a timer of \<open>randomDelay\<close> and one
  \<open>select\<close>; both branches are empty, the deferred \<open>t.Stop()\<close> runs on return.
\<close>

definition wait :: "HALockController \<Rightarrow> sel list \<Rightarrow> unit outcome \<times> sel list \<times> event list" where
  "wait hc ss =
     (case ss of
        [] \<Rightarrow> (Blocked, [], [NewTimer (randomDelay hc)])
      | s # ss' \<Rightarrow> (Ret (), ss', [NewTimer (randomDelay hc), Select s, TimerStop]))"

text \<open>
  The \<open>for\<close> loop of \<open>maintainLease\<close>. Arguments: the pending \<open>select\<close> outcomes and the
  pending answers of \<open>Renew\<close>.
\<close>

fun maintainLease_loop ::
  "sel list \<Rightarrow> error option list \<Rightarrow> error option outcome \<times> sel list \<times> error option list \<times> event list" where
  "maintainLease_loop [] rs = (Blocked, [], rs, [])"
| "maintainLease_loop (Done # ss) rs =
     (Ret None, ss, rs, [Select Done, Log Debug ''context canceled, returning'' []])"
| "maintainLease_loop (Tick # ss) [] =
     (Blocked, ss, [], [Select Tick, Log Debug ''renewing lease'' [], CallRenew])"
| "maintainLease_loop (Tick # ss) (Some e # rs) =
     (Ret (Some e), ss, rs,
      [Select Tick, Log Debug ''renewing lease'' [], CallRenew, RetRenew (Some e)])"
| "maintainLease_loop (Tick # ss) (None # rs) =
     (case maintainLease_loop ss rs of
        (r, ss', rs', t) \<Rightarrow>
          (r, ss', rs', [Select Tick, Log Debug ''renewing lease'' [], CallRenew, RetRenew None] @ t))"

text \<open>
  \<open>time.NewTicker(d)\<close> panics when \<open>d <= 0\<close> (Go's \<open>time\<close> package: "The duration d must
  be greater than zero; if not, NewTicker will panic").
\<close>

definition NewTicker_panic :: string where
  "NewTicker_panic = ''non-positive interval for NewTicker''"

text \<open>\<open>func (hc *HALockController) maintainLease(ctx) error\<close>.\<close>

definition maintainLease ::
  "HALockController \<Rightarrow> sel list \<Rightarrow> error option list \<Rightarrow>
   error option outcome \<times> sel list \<times> error option list \<times> event list" where
  "maintainLease hc ss rs =
     (if renewalPeriod hc \<le> 0 then (Panic NewTicker_panic, ss, rs, [])
      else case maintainLease_loop ss rs of
        (r, ss', rs', t) \<Rightarrow>
          (r, ss', rs',
           NewTicker RenewTicker (renewalPeriod hc) # t @
           (if r = Blocked then [] else [TickerStop RenewTicker])))"

text \<open>
  The block under \<open>if lockID != ""\<close> in \<open>Start\<close>. \<open>k\<close> counts the contexts derived so far
  with \<open>context.WithCancel\<close>; the new one is number \<open>k\<close>.
\<close>

definition Start_leading ::
  "HALockController \<Rightarrow> string \<Rightarrow> sel list \<Rightarrow> error option list \<Rightarrow> nat \<Rightarrow>
   unit outcome \<times> sel list \<times> error option list \<times> event list \<times> nat" where
  "Start_leading hc lockID ss rs k =
     (let t0 = [Log Debug ''lock acquired, ID'' [lockID], WithCancel k, Go k] in
      case maintainLease hc ss rs of
        (Panic p, ss', rs', t) \<Rightarrow> (Panic p, ss', rs', t0 @ t, Suc k)
      | (Blocked, ss', rs', t) \<Rightarrow> (Blocked, ss', rs', t0 @ t, Suc k)
      | (Ret None, ss', rs', t) \<Rightarrow> (Ret (), ss', rs', t0 @ t, Suc k)
      | (Ret (Some e), ss', rs', t) \<Rightarrow>
          (case wait hc ss' of
             (r, ss'', tw) \<Rightarrow>
               (r, ss'', rs', t0 @ t @ [Log Debug ''lease lost'' [e], Cancel k] @ tw, Suc k)))"

text \<open>
  One pass through the body of the \<open>for\<close> loop of \<open>Start\<close>, from the answer
  \<open>(lockID, err)\<close> of \<open>Acquire\<close> to the \<open>select\<close> that ends the body. \<open>Continue\<close>: the
  tick was selected and the loop goes around; \<open>Leave\<close>: \<open>Start\<close> returns, panics or
  blocks here.
\<close>

datatype loop = Continue | Leave "error option outcome"

definition Start_body ::
  "HALockController \<Rightarrow> string \<Rightarrow> error option \<Rightarrow> sel list \<Rightarrow> error option list \<Rightarrow> nat \<Rightarrow>
   loop \<times> sel list \<times> error option list \<times> event list \<times> nat" where
  "Start_body hc lockID err ss rs k =
     (let t1 = [Log Debug ''attempting to acquire lock'' [], CallAcquire (ID hc),
                RetAcquire lockID err] @
               (case err of None \<Rightarrow> [] | Some e \<Rightarrow> [Log Error ''unable to get lock'' [e]])
      in case (if lockID \<noteq> '''' then Start_leading hc lockID ss rs k
               else (Ret (), ss, rs, [], k)) of
        (Panic p, ss2, rs2, t2, k2) \<Rightarrow> (Leave (Panic p), ss2, rs2, t1 @ t2, k2)
      | (Blocked, ss2, rs2, t2, k2) \<Rightarrow> (Leave Blocked, ss2, rs2, t1 @ t2, k2)
      | (Ret u, ss2, rs2, t2, k2) \<Rightarrow>
          if waitPeriod hc \<le> 0
          then (Leave (Panic NewTicker_panic), ss2, rs2, t1 @ t2 @ [TickerStop WaitTicker], k2)
          else (case ss2 of
                  [] \<Rightarrow>
                    (Leave Blocked, [], rs2,
                     t1 @ t2 @ [TickerStop WaitTicker, NewTicker WaitTicker (waitPeriod hc)], k2)
                | Done # ss3 \<Rightarrow>
                    (Leave (Ret None), ss3, rs2,
                     t1 @ t2 @ [TickerStop WaitTicker, NewTicker WaitTicker (waitPeriod hc),
                                Select Done, Log Debug ''context canceled, returning'' []], k2)
                | Tick # ss3 \<Rightarrow>
                    (Continue, ss3, rs2,
                     t1 @ t2 @ [TickerStop WaitTicker, NewTicker WaitTicker (waitPeriod hc),
                                Select Tick], k2)))"

text \<open>
  The \<open>for\<close> loop of \<open>Start\<close>: each pass consumes one answer of \<open>Acquire\<close>. With none
  left, the call to \<open>Acquire\<close> has been made and has not returned. The result carries the
  number of derived contexts, whose \<open>cancel\<close> functions are deferred.
\<close>

fun Start_loop ::
  "HALockController \<Rightarrow> sel list \<Rightarrow> (string \<times> error option) list \<Rightarrow> error option list \<Rightarrow> nat \<Rightarrow>
   error option outcome \<times> event list \<times> nat" where
  "Start_loop hc ss [] rs k =
     (Blocked, [Log Debug ''attempting to acquire lock'' [], CallAcquire (ID hc)], k)"
| "Start_loop hc ss (a # as) rs k =
     (case Start_body hc (fst a) (snd a) ss rs k of
        (Leave r, ss', rs', t, k') \<Rightarrow> (r, t, k')
      | (Continue, ss', rs', t, k') \<Rightarrow>
          (case Start_loop hc ss' as rs' k' of (r, t', k'') \<Rightarrow> (r, t @ t', k'')))"

text \<open>
  What runs when \<open>Start\<close> returns or panics: the deferred \<open>cancel()\<close> of every episode,
  last registered first, then the deferred \<open>waitTicker.Stop()\<close>.
\<close>

definition deferred :: "nat \<Rightarrow> event list" where
  "deferred k = map Cancel (rev [0..<k]) @ [TickerStop WaitTicker]"

text \<open>
  \<open>func (hc *HALockController) Start(ctx, protectedFunc) error\<close>. The call
  \<open>hc.logger.Named(hc.ID)\<close> discards its result and has no effect.
\<close>

definition Start :: "HALockController \<Rightarrow> env \<Rightarrow> error option outcome \<times> event list" where
  "Start hc e =
     (case wait hc (sels e) of
        (Blocked, ss1, tw) \<Rightarrow> (Blocked, tw)
      | (_, ss1, tw) \<Rightarrow>
          if waitPeriod hc \<le> 0 then (Panic NewTicker_panic, tw)
          else (case Start_loop hc ss1 (acqs e) (rens e) 0 of
                  (r, t, k) \<Rightarrow>
                    (r, tw @ [NewTicker WaitTicker (waitPeriod hc)] @ t @
                        (if r = Blocked then [] else deferred k))))"

section \<open>Construction\<close>

text \<open>
  A finite \<open>float64\<close> is a pair \<open>(m, e)\<close> standing for \<open>m * 2^e\<close>, its significand \<open>m\<close>
  of at most 53 bits. The values met here (an \<open>int64\<close>, a factor of about one and their
  product) stay far from the overflow and underflow of the exponent, which is therefore
  unbounded.
\<close>

type_synonym float64 = "int \<times> int"

text \<open>
  Rounding \<open>m * 2^e\<close> to 53 significant bits, to nearest, ties to even (the rounding of
  IEEE 754 arithmetic, which Go's \<open>float64\<close> conversion and multiplication apply).
\<close>

definition f64_round :: "int \<Rightarrow> int \<Rightarrow> float64" where
  "f64_round m e =
     (let a = \<bar>m\<bar>; k = bitlen a - 53 in
      if k \<le> 0 then (m, e)
      else
        let q = a div 2 ^ nat k; r = a mod 2 ^ nat k; h = 2 ^ nat (k - 1);
            q' = (if h < r \<or> (r = h \<and> odd q) then q + 1 else q)
        in (sgn m * q', e + k))"

text \<open>\<open>float64(lease)\<close> for an integer \<open>lease\<close>.\<close>

definition float64_of_int :: "int \<Rightarrow> float64" where
  "float64_of_int n = f64_round n 0"

text \<open>The product of two \<open>float64\<close> values: the exact product, rounded once.\<close>

definition f64_mul :: "float64 \<Rightarrow> float64 \<Rightarrow> float64" where
  "f64_mul x y = f64_round (fst x * fst y) (snd x + snd y)"

text \<open>
  The constants \<open>renewalFactor = 0.7\<close> and \<open>waitFactor = 1.1\<close>, converted to \<open>float64\<close>
  where they meet \<open>float64(lease)\<close>: the nearest values are \<open>0x1.6666666666666p-1\<close> and
  \<open>0x1.199999999999ap+0\<close>.
\<close>

definition renewalFactor :: float64 where
  "renewalFactor = (3152519739159347, - 52)"

definition waitFactor :: float64 where
  "waitFactor = (4953959590107546, - 52)"

text \<open>The integer part of a \<open>float64\<close>, truncated toward zero.\<close>

definition f64_trunc :: "float64 \<Rightarrow> int" where
  "f64_trunc x =
     (case x of (m, e) \<Rightarrow>
        if 0 \<le> e then m * 2 ^ nat e else sgn m * (\<bar>m\<bar> div 2 ^ nat (- e)))"

text \<open>
  The conversion \<open>time.Duration(x)\<close> of a \<open>float64\<close> to \<open>int64\<close>. When the integer part
  does not fit, Go leaves the result to the implementation; \<open>ood\<close> is what the platform
  yields then.
\<close>

definition Duration_of_float64 :: "(float64 \<Rightarrow> int) \<Rightarrow> float64 \<Rightarrow> int" where
  "Duration_of_float64 ood x =
     (let t = f64_trunc x in if - (2 ^ 63) \<le> t \<and> t < 2 ^ 63 then t else ood x)"

definition Millisecond :: int where
  "Millisecond = 1000000"

text \<open>
  \<open>func NewHALockController(l lock, logger log.Logger, lease time.Duration)\<close>. Parameters
  of the model: \<open>uuid\<close>, the result of \<open>uuid.Generate()\<close>, and \<open>rn\<close>, the result of
  \<open>rand.New(rand.NewSource(time.Now().Unix())).Intn(100)\<close>.
\<close>

definition NewHALockController ::
  "(float64 \<Rightarrow> int) \<Rightarrow> string \<Rightarrow> int \<Rightarrow> int \<Rightarrow> HALockController" where
  "NewHALockController ood uuid rn lease =
     \<lparr>ID = uuid,
      renewalPeriod = Duration_of_float64 ood (f64_mul (float64_of_int lease) renewalFactor),
      waitPeriod = Duration_of_float64 ood (f64_mul (float64_of_int lease) waitFactor),
      randomDelay = rn * Millisecond\<rparr>"

section \<open>Concrete controllers and environments\<close>

text \<open>
  The controller of the test suite: a lease of 10 ms, hence a renewal period of 7 ms and a
  wait period of 11 ms, and no startup delay.
\<close>

definition hac1 :: HALockController where
  "hac1 = \<lparr>ID = ''hac1'', renewalPeriod = 7000000, waitPeriod = 11000000, randomDelay = 0\<rparr>"

text \<open>
  An environment in which \<open>Acquire\<close> first fails, then grants the lock, the first renewal
  fails, and the context is cancelled during the retry wait that follows.
\<close>

definition env1 :: env where
  "env1 = \<lparr>sels = [Tick, Tick, Tick, Tick, Done],
           acqs = [('''', Some ''backend down''), (''lockID'', None)],
           rens = [Some ''lease lost'']\<rparr>"

text \<open>The events of one successful renewal.\<close>

definition renewed :: "event list" where
  "renewed = [Select Tick, Log Debug ''renewing lease'' [], CallRenew, RetRenew None]"

text \<open>The events of a pass in which \<open>Acquire\<close> grants nothing and the tick arrives.\<close>

definition not_acquired :: "HALockController \<Rightarrow> error option \<Rightarrow> event list" where
  "not_acquired hc err =
     [Log Debug ''attempting to acquire lock'' [], CallAcquire (ID hc), RetAcquire '''' err] @
     (case err of None \<Rightarrow> [] | Some e \<Rightarrow> [Log Error ''unable to get lock'' [e]]) @
     [TickerStop WaitTicker, NewTicker WaitTicker (waitPeriod hc), Select Tick]"

text \<open>
  An environment in which \<open>Acquire\<close> returns a token together with an error; one renewal
  succeeds before the context is cancelled.
\<close>

definition env5 :: env where
  "env5 = \<lparr>sels = [Tick, Tick, Done, Done], acqs = [(''lockID'', Some ''boom'')], rens = [None]\<rparr>"

text \<open>
  Two properties of the events between two calls of \<open>Acquire\<close>. \<open>jittered\<close>: when a
  renewal failed, the events end with the block of the lost lease and its \<open>wait\<close>, and no
  other timer was created; when none failed, no timer was created.
\<close>

definition jittered :: "HALockController \<Rightarrow> event list \<Rightarrow> bool" where
  "jittered hc m \<longleftrightarrow>
     ((\<exists>e. RetRenew (Some e) \<in> set m) \<longrightarrow>
        (\<exists>m' e k s. m = m' @ [Log Debug ''lease lost'' [e], Cancel k,
                               NewTimer (randomDelay hc), Select s, TimerStop] \<and>
                    (\<forall>d. NewTimer d \<notin> set m'))) \<and>
     ((\<forall>e. RetRenew (Some e) \<notin> set m) \<longrightarrow> (\<forall>d. NewTimer d \<notin> set m))"

definition between_attempts :: "HALockController \<Rightarrow> event list \<Rightarrow> bool" where
  "between_attempts hc m \<longleftrightarrow>
     (\<forall>i. CallAcquire i \<notin> set m) \<and> (\<forall>d. NewTicker WaitTicker d \<notin> set m) \<and>
     TickerStop WaitTicker \<notin> set m \<and> jittered hc m"

section \<open>Basic facts\<close>

lemma wait_Nil [simp]: "wait hc [] = (Blocked, [], [NewTimer (randomDelay hc)])"
  by (simp add: wait_def)

lemma wait_Cons [simp]:
  "wait hc (s # ss) = (Ret (), ss, [NewTimer (randomDelay hc), Select s, TimerStop])"
  by (simp add: wait_def)

lemma maintainLease_loop_renewals:
  "maintainLease_loop (replicate n Tick @ ss) (replicate n None @ rs) =
     (case maintainLease_loop ss rs of
        (r, ss', rs', t) \<Rightarrow> (r, ss', rs', concat (replicate n renewed) @ t))"
  by (induction n) (simp_all add: renewed_def split: prod.splits)

text \<open>No function hands back a \<open>select\<close> outcome it was not given.\<close>

lemma maintainLease_loop_sels:
  "maintainLease_loop ss rs = (r, ss', rs', t) \<Longrightarrow> set ss' \<subseteq> set ss"
  by (induction ss rs arbitrary: r ss' rs' t rule: maintainLease_loop.induct)
     (auto split: prod.splits)

lemma maintainLease_sels: "maintainLease hc ss rs = (r, ss', rs', t) \<Longrightarrow> set ss' \<subseteq> set ss"
  by (auto simp: maintainLease_def split: if_splits prod.splits dest: maintainLease_loop_sels)

lemma wait_sels: "wait hc ss = (r, ss', t) \<Longrightarrow> set ss' \<subseteq> set ss"
  by (auto simp: wait_def split: list.splits)

lemma Start_leading_sels:
  "Start_leading hc lockID ss rs k = (r, ss', rs', t, k') \<Longrightarrow> set ss' \<subseteq> set ss"
  by (auto simp: Start_leading_def Let_def split: prod.splits outcome.splits option.splits
           dest!: maintainLease_sels wait_sels)

lemma Start_body_sels:
  "Start_body hc lockID err ss rs k = (c, ss', rs', t, k') \<Longrightarrow> set ss' \<subseteq> set ss"
  by (auto simp: Start_body_def Let_def
           split: prod.splits outcome.splits if_splits list.splits sel.splits
           dest!: Start_leading_sels)

section \<open>The return value of \<open>Start\<close>\<close>

lemma Start_body_Ret:
  "Start_body hc lockID err ss rs k = (Leave (Ret x), ss', rs', t, k') \<Longrightarrow>
   x = None \<and> Done \<in> set ss \<and>
   (\<exists>t'. t = t' @ [Select Done, Log Debug ''context canceled, returning'' []])"
  by (auto simp: Start_body_def Let_def
           split: prod.splits outcome.splits if_splits list.splits sel.splits
           dest!: Start_leading_sels)

lemma Start_loop_Ret:
  "Start_loop hc ss as rs k = (Ret x, t, k') \<Longrightarrow>
   x = None \<and> Done \<in> set ss \<and>
   (\<exists>t'. t = t' @ [Select Done, Log Debug ''context canceled, returning'' []])"
proof (induction hc ss as rs k arbitrary: x t k' rule: Start_loop.induct)
  case (1 hc ss rs k)
  then show ?case by simp
next
  case (2 hc ss a as rs k)
  show ?case
    using "2.prems" "2.IH"
    by (fastforce split: prod.splits loop.splits dest: Start_body_Ret Start_body_sels)
qed

text \<open>
  Claim C1. Whatever the lock backend answers (tokens, acquisition errors, renewal
  errors) and whatever the timers do, a call of \<open>Start\<close> that returns returns \<open>nil\<close>; it
  returns only after a \<open>select\<close> has taken the branch of the cancelled governing context,
  and it does so through the cancellation branch of the retry \<open>select\<close>: the last events
  are that branch, its log line and the deferred calls.
\<close>

theorem Start_returns_nil:
  assumes "Start hc e = (Ret x, t)"
  shows "x = None \<and> Done \<in> set (sels e) \<and>
         (\<exists>t' k. t = t' @ Select Done # Log Debug ''context canceled, returning'' [] # deferred k)"
proof -
  from assms obtain s ss1 where ss: "sels e = s # ss1"
    by (cases "sels e") (auto simp: Start_def)
  from assms ss obtain t1 k where
    loop: "Start_loop hc ss1 (acqs e) (rens e) 0 = (Ret x, t1, k)" and
    t: "t = [NewTimer (randomDelay hc), Select s, TimerStop] @
            [NewTicker WaitTicker (waitPeriod hc)] @ t1 @ deferred k"
    by (auto simp: Start_def split: if_splits prod.splits)
  from Start_loop_Ret [OF loop] obtain t' where
    "x = None" "Done \<in> set ss1"
    "t1 = t' @ [Select Done, Log Debug ''context canceled, returning'' []]"
    by blast
  with t ss have "t = ([NewTimer (randomDelay hc), Select s, TimerStop,
                NewTicker WaitTicker (waitPeriod hc)] @ t') @
              Select Done # Log Debug ''context canceled, returning'' [] # deferred k"
    by simp
  with \<open>x = None\<close> \<open>Done \<in> set ss1\<close> ss show ?thesis by (metis list.set_intros(2))
qed

theorem Start_returns_nil_witness:
  "fst (Start hac1 env1) = Ret None \<and> Done \<in> set (sels env1)"
proof -
  have run: "Start hac1 env1 = (Ret None,
    [NewTimer 0, Select Tick, TimerStop, NewTicker WaitTicker 11000000,
     Log Debug ''attempting to acquire lock'' [], CallAcquire ''hac1'',
     RetAcquire [] (Some ''backend down''),
     Log Error ''unable to get lock'' [''backend down''],
     TickerStop WaitTicker, NewTicker WaitTicker 11000000, Select Tick,
     Log Debug ''attempting to acquire lock'' [], CallAcquire ''hac1'',
     RetAcquire ''lockID'' None, Log Debug ''lock acquired, ID'' [''lockID''],
     WithCancel 0, Go 0, NewTicker RenewTicker 7000000, Select Tick,
     Log Debug ''renewing lease'' [], CallRenew, RetRenew (Some ''lease lost''),
     TickerStop RenewTicker, Log Debug ''lease lost'' [''lease lost''], Cancel 0,
     NewTimer 0, Select Tick, TimerStop, TickerStop WaitTicker,
     NewTicker WaitTicker 11000000, Select Done,
     Log Debug ''context canceled, returning'' [], Cancel 0,
     TickerStop WaitTicker])"
    by code_simp
  from Start_returns_nil [OF run] show ?thesis
    by (simp add: run)
qed

section \<open>Losing the lease, and cancellation while leading\<close>

lemma maintainLease_loop_error:
  "maintainLease_loop ss rs = (r, ss', rs', t) \<Longrightarrow> RetRenew (Some e) \<in> set t \<Longrightarrow>
   r = Ret (Some e) \<and> (\<exists>t'. t = t' @ [RetRenew (Some e)])"
  by (induction ss rs arbitrary: r ss' rs' t rule: maintainLease_loop.induct)
     (auto split: prod.splits)

lemma maintainLease_error:
  "maintainLease hc ss rs = (r, ss', rs', t) \<Longrightarrow> RetRenew (Some e) \<in> set t \<Longrightarrow>
   r = Ret (Some e) \<and> (\<exists>t'. t = t' @ [RetRenew (Some e), TickerStop RenewTicker])"
  by (auto simp: maintainLease_def split: if_splits prod.splits dest: maintainLease_loop_error)

text \<open>
  Claim C3. When \<open>Renew\<close> returns an error, whatever the error and after any number of
  successful renewals, \<open>maintainLease\<close> returns that very error at once. \<open>Start\<close> then
  logs the loss, cancels the context it derived for the protected task, waits in \<open>wait\<close>
  (a timer of \<open>randomDelay\<close> and a \<open>select\<close>, whose outcome \<open>s\<close> is the timer or the
  cancellation), restarts the wait ticker with \<open>waitPeriod\<close> and, on its tick, goes on with
  the next pass of the loop, that is with the next call of \<open>Acquire\<close>.
\<close>

theorem renew_error_ends_episode:
  assumes "0 < renewalPeriod hc" and "0 < waitPeriod hc" and "lockID \<noteq> ''''"
  shows
    "(maintainLease hc ss0 rs0 = (r, ss', rs', t) \<and> RetRenew (Some e') \<in> set t \<longrightarrow>
        r = Ret (Some e')) \<and>
     maintainLease hc (replicate n Tick @ Tick # ss) (replicate n None @ Some e # rs) =
       (Ret (Some e), ss, rs,
        NewTicker RenewTicker (renewalPeriod hc) # concat (replicate n renewed) @
        [Select Tick, Log Debug ''renewing lease'' [], CallRenew, RetRenew (Some e),
         TickerStop RenewTicker]) \<and>
     Start_loop hc (replicate n Tick @ Tick # s # Tick # ss) ((lockID, err) # as)
         (replicate n None @ Some e # rs) k =
       (case Start_loop hc ss as rs (Suc k) of
          (r, t, k') \<Rightarrow>
            (r,
             [Log Debug ''attempting to acquire lock'' [], CallAcquire (ID hc),
              RetAcquire lockID err] @
             (case err of None \<Rightarrow> [] | Some e \<Rightarrow> [Log Error ''unable to get lock'' [e]]) @
             [Log Debug ''lock acquired, ID'' [lockID], WithCancel k, Go k,
              NewTicker RenewTicker (renewalPeriod hc)] @
             concat (replicate n renewed) @
             [Select Tick, Log Debug ''renewing lease'' [], CallRenew, RetRenew (Some e),
              TickerStop RenewTicker, Log Debug ''lease lost'' [e], Cancel k,
              NewTimer (randomDelay hc), Select s, TimerStop,
              TickerStop WaitTicker, NewTicker WaitTicker (waitPeriod hc), Select Tick] @ t,
             k'))"
proof -
  have "maintainLease hc ss0 rs0 = (r, ss', rs', t) \<and> RetRenew (Some e') \<in> set t \<longrightarrow>
        r = Ret (Some e')"
    using maintainLease_error by blast
  moreover have "maintainLease hc (replicate n Tick @ Tick # ss) (replicate n None @ Some e # rs) =
       (Ret (Some e), ss, rs,
        NewTicker RenewTicker (renewalPeriod hc) # concat (replicate n renewed) @
        [Select Tick, Log Debug ''renewing lease'' [], CallRenew, RetRenew (Some e),
         TickerStop RenewTicker])"
    using assms by (simp add: maintainLease_def maintainLease_loop_renewals)
  moreover have "Start_body hc lockID err (replicate n Tick @ Tick # s # Tick # ss)
           (replicate n None @ Some e # rs) k =
         (Continue, ss, rs,
          [Log Debug ''attempting to acquire lock'' [], CallAcquire (ID hc), RetAcquire lockID err] @
          (case err of None \<Rightarrow> [] | Some e \<Rightarrow> [Log Error ''unable to get lock'' [e]]) @
          [Log Debug ''lock acquired, ID'' [lockID], WithCancel k, Go k,
           NewTicker RenewTicker (renewalPeriod hc)] @
          concat (replicate n renewed) @
          [Select Tick, Log Debug ''renewing lease'' [], CallRenew, RetRenew (Some e),
           TickerStop RenewTicker, Log Debug ''lease lost'' [e], Cancel k,
           NewTimer (randomDelay hc), Select s, TimerStop,
           TickerStop WaitTicker, NewTicker WaitTicker (waitPeriod hc), Select Tick], Suc k)"
    using assms
    by (simp add: Start_body_def Start_leading_def maintainLease_def maintainLease_loop_renewals)
  ultimately show ?thesis
    by (simp split: prod.splits)
qed

theorem renew_error_ends_episode_witness:
  "0 < renewalPeriod hac1 \<and> 0 < waitPeriod hac1 \<and>
   fst (maintainLease hac1 [Tick, Tick, Tick, Done] [None, None, Some ''lease lost'']) =
     Ret (Some ''lease lost'') \<and>
   fst (Start_loop hac1 [Tick, Tick, Tick, Done, Tick, Done] [(''lockID'', None), ([], None)]
     [None, None, Some ''lease lost''] 0) = Ret None"
proof -
  have h: "0 < renewalPeriod hac1" "0 < waitPeriod hac1" "''lockID'' \<noteq> []"
    by (simp_all add: hac1_def)
  have r: "Start_loop hac1 [Done] [([], None)] [] (Suc 0) =
     (Ret None, [Log Debug ''attempting to acquire lock'' [], CallAcquire ''hac1'',
        RetAcquire [] None, TickerStop WaitTicker, NewTicker WaitTicker 11000000,
        Select Done, Log Debug ''context canceled, returning'' []], Suc 0)"
    by code_simp
  note inst = renew_error_ends_episode [where hc = hac1 and n = "Suc (Suc 0)"
      and e = "''lease lost''" and rs = "[]" and k = 0 and ss = "[Done]" and s = Done
      and err = None and as = "[([], None)]", OF h, THEN conjunct2]
  from inst [THEN conjunct1] inst [THEN conjunct2]
  show ?thesis
    using h by (simp add: r del: Start_loop.simps)
qed

text \<open>
  Claim C4. When the \<open>select\<close> of \<open>maintainLease\<close> takes the branch of the cancelled
  context, after any number of successful renewals, \<open>maintainLease\<close> returns \<open>nil\<close>.
  \<open>Start\<close> then skips the block of the lost lease: no timer of \<open>wait\<close> is created; it
  restarts the wait ticker and, the context being cancelled, its \<open>select\<close> takes the
  cancellation branch, and \<open>Start\<close> returns \<open>nil\<close>.
\<close>

theorem cancel_while_leading_is_shutdown:
  assumes "0 < renewalPeriod hc" and "0 < waitPeriod hc" and "lockID \<noteq> ''''"
  shows
    "maintainLease hc (replicate n Tick @ Done # ss) (replicate n None @ rs) =
       (Ret None, ss, rs,
        NewTicker RenewTicker (renewalPeriod hc) # concat (replicate n renewed) @
        [Select Done, Log Debug ''context canceled, returning'' [], TickerStop RenewTicker]) \<and>
     Start_loop hc (replicate n Tick @ Done # Done # ss) ((lockID, err) # as)
         (replicate n None @ rs) k =
       (Ret None,
        [Log Debug ''attempting to acquire lock'' [], CallAcquire (ID hc),
         RetAcquire lockID err] @
        (case err of None \<Rightarrow> [] | Some e \<Rightarrow> [Log Error ''unable to get lock'' [e]]) @
        [Log Debug ''lock acquired, ID'' [lockID], WithCancel k, Go k,
         NewTicker RenewTicker (renewalPeriod hc)] @
        concat (replicate n renewed) @
        [Select Done, Log Debug ''context canceled, returning'' [], TickerStop RenewTicker,
         TickerStop WaitTicker, NewTicker WaitTicker (waitPeriod hc),
         Select Done, Log Debug ''context canceled, returning'' []],
        Suc k) \<and>
     (\<forall>d. NewTimer d \<notin> set (fst (snd (Start_loop hc (replicate n Tick @ Done # Done # ss)
         ((lockID, err) # as) (replicate n None @ rs) k))))"
proof -
  have ml: "maintainLease hc (replicate n Tick @ Done # ss') (replicate n None @ rs) =
       (Ret None, ss', rs,
        NewTicker RenewTicker (renewalPeriod hc) # concat (replicate n renewed) @
        [Select Done, Log Debug ''context canceled, returning'' [], TickerStop RenewTicker])"
    for ss'
    using assms by (simp add: maintainLease_def maintainLease_loop_renewals)
  have loop: "Start_loop hc (replicate n Tick @ Done # Done # ss) ((lockID, err) # as)
         (replicate n None @ rs) k =
       (Ret None,
        [Log Debug ''attempting to acquire lock'' [], CallAcquire (ID hc),
         RetAcquire lockID err] @
        (case err of None \<Rightarrow> [] | Some e \<Rightarrow> [Log Error ''unable to get lock'' [e]]) @
        [Log Debug ''lock acquired, ID'' [lockID], WithCancel k, Go k,
         NewTicker RenewTicker (renewalPeriod hc)] @
        concat (replicate n renewed) @
        [Select Done, Log Debug ''context canceled, returning'' [], TickerStop RenewTicker,
         TickerStop WaitTicker, NewTicker WaitTicker (waitPeriod hc),
         Select Done, Log Debug ''context canceled, returning'' []],
        Suc k)"
    using assms by (simp add: Start_body_def Start_leading_def ml)
  have "\<forall>d. NewTimer d \<notin> set (fst (snd (Start_loop hc (replicate n Tick @ Done # Done # ss)
         ((lockID, err) # as) (replicate n None @ rs) k)))"
    unfolding loop by (auto simp: renewed_def split: option.splits)
  with ml loop show ?thesis by blast
qed

theorem cancel_while_leading_is_shutdown_witness:
  "0 < renewalPeriod hac1 \<and> 0 < waitPeriod hac1 \<and>
   fst (maintainLease hac1 [Tick, Tick, Done, Done] [None, None]) = Ret None \<and>
   fst (Start_loop hac1 [Tick, Tick, Done, Done] [(''lockID'', None)] [None, None] 0) = Ret None"
proof -
  have h: "0 < renewalPeriod hac1" "0 < waitPeriod hac1" "''lockID'' \<noteq> []"
    by (simp_all add: hac1_def)
  from cancel_while_leading_is_shutdown [where hc = hac1 and n = "Suc (Suc 0)" and rs = "[]"
         and ss = "[Done]", OF h, THEN conjunct1]
       cancel_while_leading_is_shutdown [where hc = hac1 and n = "Suc (Suc 0)" and rs = "[]"
         and ss = "[]" and err = None and as = "[]" and k = 0, OF h, THEN conjunct2,
         THEN conjunct1]
  show ?thesis
    using h by simp
qed

section \<open>Errors of \<open>Acquire\<close>\<close>

text \<open>
  Claim C5, as amended. An attempt in which \<open>Acquire\<close> returns an error and an empty token
  is an attempt that acquired nothing: the error is logged, no context is derived, the
  protected task is not started, and the pass goes to the retry \<open>select\<close>. In general
  the error changes nothing but the log: with any token, the pass is the pass without the
  error, plus the log line.
\<close>

theorem acquire_error_is_only_logged:
  assumes "0 < waitPeriod hc"
  shows
    "Start_body hc '''' (Some e) (s # ss) rs k =
       ((case s of Done \<Rightarrow> Leave (Ret None) | Tick \<Rightarrow> Continue), ss, rs,
        [Log Debug ''attempting to acquire lock'' [], CallAcquire (ID hc),
         RetAcquire '''' (Some e), Log Error ''unable to get lock'' [e],
         TickerStop WaitTicker, NewTicker WaitTicker (waitPeriod hc), Select s] @
        (case s of Done \<Rightarrow> [Log Debug ''context canceled, returning'' []] | Tick \<Rightarrow> []),
        k) \<and>
     Start_body hc lockID (Some e) ss' rs k =
       (case Start_body hc lockID None ss' rs k of
          (c, ss2, rs2, t, k2) \<Rightarrow>
            (c, ss2, rs2,
             take 2 t @ RetAcquire lockID (Some e) # Log Error ''unable to get lock'' [e] #
             drop 3 t, k2))"
  using assms
  by (auto simp: Start_body_def Let_def split: sel.splits prod.splits outcome.splits list.splits)

theorem acquire_error_is_only_logged_witness:
  "(0::int) < waitPeriod hac1 \<and>
   Start_body hac1 [] (Some ''boom'') [Tick] [] 0 =
     (Continue, [], [],
      [Log Debug ''attempting to acquire lock'' [], CallAcquire (ID hac1),
       RetAcquire [] (Some ''boom''), Log Error ''unable to get lock'' [''boom''],
       TickerStop WaitTicker, NewTicker WaitTicker (waitPeriod hac1), Select Tick], 0)"
proof -
  have h: "0 < waitPeriod hac1" by (simp add: hac1_def)
  from acquire_error_is_only_logged [where hc = hac1 and e = "''boom''" and s = Tick
      and ss = "[]" and rs = "[]" and k = 0, OF h, THEN conjunct1]
  show ?thesis
    using h by simp
qed

text \<open>
  The claim as stated fails when \<open>Acquire\<close> returns an error together with a non-empty
  token: the controller logs the error and goes on to lead (event \<open>Go 0\<close>, then a
  renewal).
\<close>

theorem acquire_error_with_token_counterexample:
  "Start hac1 env5 = (Ret None, 
     [NewTimer 0, Select Tick, TimerStop, NewTicker WaitTicker 11000000,
      Log Debug ''attempting to acquire lock'' [], CallAcquire ''hac1'',
      RetAcquire ''lockID'' (Some ''boom''), Log Error ''unable to get lock'' [''boom''],
      Log Debug ''lock acquired, ID'' [''lockID''], WithCancel 0, Go 0,
      NewTicker RenewTicker 7000000,
      Select Tick, Log Debug ''renewing lease'' [], CallRenew, RetRenew None,
      Select Done, Log Debug ''context canceled, returning'' [], TickerStop RenewTicker,
      TickerStop WaitTicker, NewTicker WaitTicker 11000000,
      Select Done, Log Debug ''context canceled, returning'' [],
      Cancel 0, TickerStop WaitTicker])"
  by code_simp

section \<open>Panics of \<open>time.NewTicker\<close>\<close>

lemma Start_body_not_acquired:
  "0 < waitPeriod hc \<Longrightarrow>
   Start_body hc '''' err (Tick # ss) rs k = (Continue, ss, rs, not_acquired hc err, k)"
  by (simp add: Start_body_def not_acquired_def)

lemma Start_loop_not_acquired:
  "0 < waitPeriod hc \<Longrightarrow>
   Start_loop hc (replicate (length errs) Tick @ ss) (map (Pair '''') errs @ as) rs k =
     (case Start_loop hc ss as rs k of
        (r, t, k') \<Rightarrow> (r, concat (map (not_acquired hc) errs) @ t, k'))"
  by (induction errs) (simp_all add: Start_body_not_acquired split: prod.splits)

lemma maintainLease_loop_no_panic:
  "maintainLease_loop ss rs = (r, ss', rs', t) \<Longrightarrow> r \<noteq> Panic p"
  by (induction ss rs arbitrary: r ss' rs' t rule: maintainLease_loop.induct)
     (auto split: prod.splits)

lemma maintainLease_no_panic:
  "0 < renewalPeriod hc \<Longrightarrow> maintainLease hc ss rs = (r, ss', rs', t) \<Longrightarrow> r \<noteq> Panic p"
  by (auto simp: maintainLease_def split: prod.splits dest: maintainLease_loop_no_panic)

lemma Start_leading_no_panic:
  "0 < renewalPeriod hc \<Longrightarrow> Start_leading hc lockID ss rs k = (r, ss', rs', t, k') \<Longrightarrow>
   r \<noteq> Panic p"
  by (auto simp: Start_leading_def Let_def wait_def
           split: prod.splits outcome.splits option.splits list.splits
           dest: maintainLease_no_panic)

lemma Start_body_no_panic:
  "0 < renewalPeriod hc \<Longrightarrow> 0 < waitPeriod hc \<Longrightarrow>
   Start_body hc lockID err ss rs k = (c, ss', rs', t, k') \<Longrightarrow> c \<noteq> Leave (Panic p)"
  by (auto simp: Start_body_def Let_def
           split: prod.splits outcome.splits list.splits sel.splits if_splits
           dest: Start_leading_no_panic)

lemma Start_loop_no_panic:
  "0 < renewalPeriod hc \<Longrightarrow> 0 < waitPeriod hc \<Longrightarrow> Start_loop hc ss as rs k = (r, t, k') \<Longrightarrow>
   r \<noteq> Panic p"
proof (induction hc ss as rs k arbitrary: r t k' rule: Start_loop.induct)
  case (1 hc ss rs k)
  then show ?case by auto
next
  case (2 hc ss a as rs k)
  show ?case
    using "2.prems" "2.IH"
    by (fastforce split: prod.splits loop.splits dest: Start_body_no_panic)
qed

lemma Start_no_panic:
  "0 < renewalPeriod hc \<Longrightarrow> 0 < waitPeriod hc \<Longrightarrow> fst (Start hc e) \<noteq> Panic p"
  by (auto simp: Start_def wait_def split: prod.splits outcome.splits list.splits
           dest: Start_loop_no_panic)

lemma lease_0: "NewHALockController ood u rn 0 =
    \<lparr>ID = u, renewalPeriod = 0, waitPeriod = 0, randomDelay = rn * Millisecond\<rparr>"
  by (simp add: NewHALockController_def Duration_of_float64_def f64_trunc_def f64_mul_def
      float64_of_int_def f64_round_def renewalFactor_def waitFactor_def Let_def)

lemma lease_1: "NewHALockController ood u rn 1 =
    \<lparr>ID = u, renewalPeriod = 0, waitPeriod = 1, randomDelay = rn * Millisecond\<rparr>"
  by (simp add: NewHALockController_def Duration_of_float64_def f64_trunc_def f64_mul_def
      float64_of_int_def f64_round_def renewalFactor_def waitFactor_def Let_def compute_bitlen)

text \<open>
  Claim C10. \<open>Start\<close> panics in \<open>time.NewTicker\<close>, and returns no error, when a period is
  not positive: with \<open>waitPeriod \<le> 0\<close> at the creation of the retry ticker, as soon as
  the startup wait is over; with \<open>waitPeriod > 0\<close> and \<open>renewalPeriod \<le> 0\<close> at the creation
  of the renewal ticker, the first time \<open>Acquire\<close> returns a token (the protected task has
  been started by then). With both periods positive \<open>Start\<close> never panics. A lease of 0
  gives a wait period of 0; a lease of 1 ns gives a renewal period of 0 and a wait period
  of 1 ns.
\<close>

theorem Start_panics_on_nonpositive_period:
  "(waitPeriod hc \<le> 0 \<longrightarrow>
      Start hc \<lparr>sels = s # ss, acqs = as, rens = rs\<rparr> =
        (Panic NewTicker_panic, [NewTimer (randomDelay hc), Select s, TimerStop])) \<and>
   (0 < waitPeriod hc \<and> renewalPeriod hc \<le> 0 \<and> lockID \<noteq> '''' \<longrightarrow>
      Start hc \<lparr>sels = s # replicate (length errs) Tick @ ss,
                acqs = map (Pair '''') errs @ (lockID, err) # as, rens = rs\<rparr> =
        (Panic NewTicker_panic,
         [NewTimer (randomDelay hc), Select s, TimerStop, NewTicker WaitTicker (waitPeriod hc)] @
         concat (map (not_acquired hc) errs) @
         [Log Debug ''attempting to acquire lock'' [], CallAcquire (ID hc),
          RetAcquire lockID err] @
         (case err of None \<Rightarrow> [] | Some e \<Rightarrow> [Log Error ''unable to get lock'' [e]]) @
         [Log Debug ''lock acquired, ID'' [lockID], WithCancel 0, Go 0] @ deferred 1)) \<and>
   (0 < waitPeriod hc \<and> 0 < renewalPeriod hc \<longrightarrow> (\<forall>p. fst (Start hc e) \<noteq> Panic p)) \<and>
   waitPeriod (NewHALockController ood u rn 0) = 0 \<and>
   renewalPeriod (NewHALockController ood u rn 1) = 0 \<and>
   waitPeriod (NewHALockController ood u rn 1) = 1"
proof -
  have a: "waitPeriod hc \<le> 0 \<longrightarrow>
      Start hc \<lparr>sels = s # ss, acqs = as, rens = rs\<rparr> =
        (Panic NewTicker_panic, [NewTimer (randomDelay hc), Select s, TimerStop])"
    by (simp add: Start_def)
  have b: "0 < waitPeriod hc \<and> renewalPeriod hc \<le> 0 \<and> lockID \<noteq> '''' \<longrightarrow>
      Start hc \<lparr>sels = s # replicate (length errs) Tick @ ss,
                acqs = map (Pair '''') errs @ (lockID, err) # as, rens = rs\<rparr> =
        (Panic NewTicker_panic,
         [NewTimer (randomDelay hc), Select s, TimerStop, NewTicker WaitTicker (waitPeriod hc)] @
         concat (map (not_acquired hc) errs) @
         [Log Debug ''attempting to acquire lock'' [], CallAcquire (ID hc),
          RetAcquire lockID err] @
         (case err of None \<Rightarrow> [] | Some e \<Rightarrow> [Log Error ''unable to get lock'' [e]]) @
         [Log Debug ''lock acquired, ID'' [lockID], WithCancel 0, Go 0] @ deferred 1)"
    by (simp add: Start_def Start_loop_not_acquired Start_body_def Start_leading_def
        maintainLease_def)
  have c: "0 < waitPeriod hc \<and> 0 < renewalPeriod hc \<longrightarrow> (\<forall>p. fst (Start hc e) \<noteq> Panic p)"
    using Start_no_panic by blast
  from a b c show ?thesis
    by (simp add: lease_0 lease_1)
qed

theorem Start_panics_on_nonpositive_period_witness:
  "waitPeriod (NewHALockController (\<lambda>x. 0) ''hac0'' 5 0) \<le> 0 \<and>
   fst (Start (NewHALockController (\<lambda>x. 0) ''hac0'' 5 0) \<lparr>sels = [Tick], acqs = [], rens = []\<rparr>) =
     Panic NewTicker_panic \<and>
   0 < waitPeriod (NewHALockController (\<lambda>x. 0) ''hac0'' 5 1) \<and>
   renewalPeriod (NewHALockController (\<lambda>x. 0) ''hac0'' 5 1) \<le> 0 \<and>
   fst (Start (NewHALockController (\<lambda>x. 0) ''hac0'' 5 1)
     \<lparr>sels = [Tick, Tick], acqs = [([], None), (''lockID'', None)], rens = []\<rparr>) =
     Panic NewTicker_panic \<and>
   0 < waitPeriod hac1 \<and> 0 < renewalPeriod hac1 \<and> fst (Start hac1 env1) \<noteq> Panic NewTicker_panic"
proof -
  let ?h0 = "NewHALockController (\<lambda>x. 0) ''hac0'' 5 0"
  let ?h1 = "NewHALockController (\<lambda>x. 0) ''hac0'' 5 1"
  have p0: "waitPeriod ?h0 \<le> 0"
    using Start_panics_on_nonpositive_period [where ood = "\<lambda>x. 0" and u = "''hac0''" and rn = 5]
    by simp
  have p1: "0 < waitPeriod ?h1 \<and> renewalPeriod ?h1 \<le> 0 \<and> ''lockID'' \<noteq> []"
    using Start_panics_on_nonpositive_period [where ood = "\<lambda>x. 0" and u = "''hac0''" and rn = 5]
    by simp
  have p2: "0 < waitPeriod hac1 \<and> 0 < renewalPeriod hac1"
    by (simp add: hac1_def)
  from Start_panics_on_nonpositive_period [where hc = ?h0 and s = Tick and ss = "[]"
      and as = "[]" and rs = "[]", THEN conjunct1, rule_format, OF p0]
    Start_panics_on_nonpositive_period [where hc = ?h1 and s = Tick and ss = "[]"
      and errs = "[None]" and lockID = "''lockID''" and err = None
      and as = "[]" and rs = "[]", THEN conjunct2, THEN conjunct1, rule_format, OF p1]
    Start_panics_on_nonpositive_period [where hc = hac1 and e = env1,
      THEN conjunct2, THEN conjunct2, THEN conjunct1, rule_format, OF p2]
  show ?thesis
    using p0 p1 p2 by simp
qed

section \<open>The pace of the acquisition attempts\<close>

lemma split_after:
  "\<forall>x\<in>set a. \<not> P x \<Longrightarrow> P y \<Longrightarrow> a @ b = pre @ y # post \<Longrightarrow>
   \<exists>pre'. pre = a @ pre' \<and> b = pre' @ y # post"
proof (induction a arbitrary: pre)
  case Nil
  then show ?case by simp
next
  case (Cons x a)
  then show ?case by (cases pre) auto
qed

lemma split_before:
  "\<forall>x\<in>set d. \<not> P x \<Longrightarrow> P y \<Longrightarrow> a @ d = pre @ y # post \<Longrightarrow>
   \<exists>post'. post = post' @ d \<and> a = pre @ y # post'"
proof (induction pre arbitrary: a)
  case Nil
  then show ?case by (cases a) auto
next
  case (Cons x pre)
  then show ?case by (cases a) auto
qed

lemma split_first_eq:
  "\<forall>x\<in>set a. \<not> P x \<Longrightarrow> \<forall>x\<in>set a'. \<not> P x \<Longrightarrow> P y \<Longrightarrow> P y' \<Longrightarrow>
   a @ y # b = a' @ y' # b' \<Longrightarrow> a = a' \<and> y = y' \<and> b = b'"
proof (induction a arbitrary: a')
  case Nil
  then show ?case by (cases a') auto
next
  case (Cons x a)
  then show ?case by (cases a') auto
qed

lemma maintainLease_loop_events:
  "maintainLease_loop ss rs = (r, ss', rs', t) \<Longrightarrow>
   (\<forall>i. CallAcquire i \<notin> set t) \<and> (\<forall>d. NewTimer d \<notin> set t) \<and>
   (\<forall>tk d. NewTicker tk d \<notin> set t) \<and> (\<forall>tk. TickerStop tk \<notin> set t) \<and>
   ((\<exists>e. RetRenew (Some e) \<in> set t) \<longleftrightarrow> (\<exists>e. r = Ret (Some e)))"
  by (induction ss rs arbitrary: r ss' rs' t rule: maintainLease_loop.induct)
     (auto split: prod.splits)

lemma maintainLease_events:
  "maintainLease hc ss rs = (r, ss', rs', t) \<Longrightarrow>
   (\<forall>i. CallAcquire i \<notin> set t) \<and> (\<forall>d. NewTimer d \<notin> set t) \<and>
   (\<forall>d. NewTicker WaitTicker d \<notin> set t) \<and> TickerStop WaitTicker \<notin> set t \<and>
   ((\<exists>e. RetRenew (Some e) \<in> set t) \<longleftrightarrow> (\<exists>e. r = Ret (Some e)))"
  by (auto simp: maintainLease_def split: if_splits prod.splits dest!: maintainLease_loop_events)

lemma Start_leading_events:
  assumes "Start_leading hc lockID ss rs k = (r, ss', rs', t, k')"
  shows "(\<forall>i. CallAcquire i \<notin> set t) \<and> (\<forall>d. NewTicker WaitTicker d \<notin> set t) \<and>
         TickerStop WaitTicker \<notin> set t \<and> (r \<noteq> Blocked \<longrightarrow> jittered hc t)"
proof -
  obtain rm sm rsm tm where ml: "maintainLease hc ss rs = (rm, sm, rsm, tm)"
    by (cases "maintainLease hc ss rs") auto
  note ev = maintainLease_events [OF ml]
  show ?thesis
  proof (cases rm)
    case (Ret x)
    show ?thesis
    proof (cases x)
      case None
      with Ret ml assms ev show ?thesis
        by (auto simp: Start_leading_def jittered_def)
    next
      case (Some e)
      show ?thesis
      proof (cases sm)
        case Nil
        with Some Ret ml assms ev show ?thesis
          by (auto simp: Start_leading_def jittered_def)
      next
        case (Cons s sm')
        with Some Ret ml assms
        have t: "t = ([Log Debug ''lock acquired, ID'' [lockID], WithCancel k, Go k] @ tm) @
                     [Log Debug ''lease lost'' [e], Cancel k, NewTimer (randomDelay hc),
                      Select s, TimerStop]" and r: "r = Ret ()"
          by (auto simp: Start_leading_def)
        have nt: "\<forall>d. NewTimer d \<notin> set ([Log Debug ''lock acquired, ID'' [lockID], WithCancel k, Go k] @ tm)"
          using ev by auto
        from ev Ret Some obtain e0 where "RetRenew (Some e0) \<in> set tm"
          by auto
        then have j2: "\<not> (\<forall>e. RetRenew (Some e) \<notin> set t)"
          unfolding t by auto
        have j1: "\<exists>m' e k s. t = m' @ [Log Debug ''lease lost'' [e], Cancel k,
                               NewTimer (randomDelay hc), Select s, TimerStop] \<and>
                    (\<forall>d. NewTimer d \<notin> set m')"
          using t nt by blast
        have "jittered hc t"
          unfolding jittered_def using j1 j2 by blast
        moreover have "(\<forall>i. CallAcquire i \<notin> set t) \<and> (\<forall>d. NewTicker WaitTicker d \<notin> set t) \<and>
           TickerStop WaitTicker \<notin> set t"
          using ev unfolding t by auto
        ultimately show ?thesis by blast
      qed
    qed
  next
    case (Panic p)
    with ml assms ev show ?thesis
      by (auto simp: Start_leading_def jittered_def)
  next
    case Blocked
    with ml assms ev show ?thesis
      by (auto simp: Start_leading_def jittered_def)
  qed
qed

lemma jittered_prepend:
  assumes "jittered hc t" and "\<forall>e. RetRenew (Some e) \<notin> set p" and "\<forall>d. NewTimer d \<notin> set p"
  shows "jittered hc (p @ t)"
proof (cases "\<exists>e. RetRenew (Some e) \<in> set t")
  case True
  with assms(1) obtain m' e k s where
    t: "t = m' @ [Log Debug ''lease lost'' [e], Cancel k, NewTimer (randomDelay hc), Select s,
                  TimerStop]" and m': "\<forall>d. NewTimer d \<notin> set m'"
    unfolding jittered_def by blast
  have "p @ t = (p @ m') @ [Log Debug ''lease lost'' [e], Cancel k, NewTimer (randomDelay hc),
                            Select s, TimerStop]"
    by (simp add: t)
  moreover have "\<forall>d. NewTimer d \<notin> set (p @ m')"
    using m' assms(3) by auto
  ultimately have "\<exists>m' e k s. p @ t = m' @ [Log Debug ''lease lost'' [e], Cancel k,
      NewTimer (randomDelay hc), Select s, TimerStop] \<and> (\<forall>d. NewTimer d \<notin> set m')"
    by blast
  moreover from True have "\<not> (\<forall>e. RetRenew (Some e) \<notin> set (p @ t))"
    by auto
  ultimately show ?thesis
    unfolding jittered_def by blast
next
  case False
  with assms(1) have "\<forall>d. NewTimer d \<notin> set t"
    unfolding jittered_def by blast
  with assms(3) have "\<forall>d. NewTimer d \<notin> set (p @ t)"
    by auto
  moreover from False assms(2) have "\<forall>e. RetRenew (Some e) \<notin> set (p @ t)"
    by auto
  ultimately show ?thesis
    unfolding jittered_def by blast
qed

lemma jittered_Nil: "jittered hc []"
  by (simp add: jittered_def)

lemma Start_body_events:
  assumes "Start_body hc lockID err ss rs k = (c, ss', rs', t, k')"
  shows "\<exists>m. t = Log Debug ''attempting to acquire lock'' [] # CallAcquire (ID hc) # m \<and>
           (\<forall>i. CallAcquire i \<notin> set m) \<and>
           (c = Continue \<longrightarrow>
              (\<exists>m0. m = m0 @ [TickerStop WaitTicker, NewTicker WaitTicker (waitPeriod hc),
                              Select Tick] \<and> between_attempts hc m0))"
proof -
  define p where "p = RetAcquire lockID err #
     (case err of None \<Rightarrow> [] | Some e \<Rightarrow> [Log Error ''unable to get lock'' [e]])"
  have p: "(\<forall>i. CallAcquire i \<notin> set p) \<and> (\<forall>d. NewTicker WaitTicker d \<notin> set p) \<and>
       TickerStop WaitTicker \<notin> set p \<and> (\<forall>e. RetRenew (Some e) \<notin> set p) \<and>
       (\<forall>d. NewTimer d \<notin> set p)"
    by (auto simp: p_def split: option.splits)
  obtain r2 ss2 rs2 t2 k2 where
    l: "(if lockID \<noteq> '''' then Start_leading hc lockID ss rs k else (Ret (), ss, rs, [], k)) =
        (r2, ss2, rs2, t2, k2)"
    by (metis prod_cases5)
  have t2: "(\<forall>i. CallAcquire i \<notin> set t2) \<and> (\<forall>d. NewTicker WaitTicker d \<notin> set t2) \<and>
         TickerStop WaitTicker \<notin> set t2 \<and> (r2 \<noteq> Blocked \<longrightarrow> jittered hc t2)"
  proof (cases "lockID \<noteq> ''''")
    case True
    with l show ?thesis by (simp add: Start_leading_events)
  next
    case False
    with l show ?thesis by (auto simp: jittered_Nil)
  qed
  have ba: "r2 \<noteq> Blocked \<Longrightarrow> between_attempts hc (p @ t2)"
    using p t2 jittered_prepend [of hc t2 p] by (auto simp: between_attempts_def)
  from assms l have
    "(\<exists>x. t = Log Debug ''attempting to acquire lock'' [] # CallAcquire (ID hc) # (p @ t2) @ x \<and>
          (\<forall>i. CallAcquire i \<notin> set x) \<and>
          (c = Continue \<longrightarrow> r2 \<noteq> Blocked \<and>
             x = [TickerStop WaitTicker, NewTicker WaitTicker (waitPeriod hc), Select Tick]))"
    by (auto simp: Start_body_def Let_def p_def
             split: outcome.splits if_splits list.splits sel.splits)
  then obtain x where
    t: "t = Log Debug ''attempting to acquire lock'' [] # CallAcquire (ID hc) # (p @ t2) @ x" and
    x: "\<forall>i. CallAcquire i \<notin> set x" and
    c: "c = Continue \<longrightarrow> r2 \<noteq> Blocked \<and>
          x = [TickerStop WaitTicker, NewTicker WaitTicker (waitPeriod hc), Select Tick]"
    by blast
  have "\<forall>i. CallAcquire i \<notin> set ((p @ t2) @ x)"
    using p t2 x by auto
  moreover have "c = Continue \<longrightarrow>
      (\<exists>m0. (p @ t2) @ x = m0 @ [TickerStop WaitTicker, NewTicker WaitTicker (waitPeriod hc),
                              Select Tick] \<and> between_attempts hc m0)"
    using c ba by blast
  ultimately show ?thesis
    using t by blast
qed

lemma Start_loop_head:
  "\<exists>t'. fst (snd (Start_loop hc ss as rs k)) =
      Log Debug ''attempting to acquire lock'' [] # CallAcquire (ID hc) # t'"
proof (cases as)
  case Nil
  then show ?thesis by simp
next
  case (Cons a as')
  obtain c ss' rs' t k' where b: "Start_body hc (fst a) (snd a) ss rs k = (c, ss', rs', t, k')"
    by (metis prod_cases5)
  from Start_body_events [OF b] obtain m where
    "t = Log Debug ''attempting to acquire lock'' [] # CallAcquire (ID hc) # m"
    by blast
  with Cons b show ?thesis
    by (cases c) (auto split: prod.splits)
qed

lemma Start_loop_between:
  "Start_loop hc ss as rs k = (r, t, k') \<Longrightarrow>
   t = pre @ CallAcquire i # mid @ CallAcquire j # post \<Longrightarrow>
   \<forall>i. CallAcquire i \<notin> set mid \<Longrightarrow>
   \<exists>m. mid = m @ [TickerStop WaitTicker, NewTicker WaitTicker (waitPeriod hc), Select Tick,
                   Log Debug ''attempting to acquire lock'' []] \<and> between_attempts hc m"
proof (induction hc ss as rs k arbitrary: r t k' pre rule: Start_loop.induct)
  case (1 hc ss rs k)
  from "1.prems"(1,2) have
    "[Log Debug ''attempting to acquire lock'' []] @ [CallAcquire (ID hc)] =
     pre @ CallAcquire i # mid @ CallAcquire j # post"
    by simp
  from split_after [where P = "\<lambda>ev. \<exists>i. ev = CallAcquire i", OF _ _ this]
  show ?case by (auto simp: Cons_eq_append_conv)
next
  case (2 hc ss a as rs k)
  let ?P = "\<lambda>ev. \<exists>i. ev = CallAcquire i"
  let ?L = "Log Debug ''attempting to acquire lock'' []"
  let ?W = "[TickerStop WaitTicker, NewTicker WaitTicker (waitPeriod hc), Select Tick]"
  obtain c ss' rs' tb kb where b: "Start_body hc (fst a) (snd a) ss rs k = (c, ss', rs', tb, kb)"
    by (metis prod_cases5)
  from Start_body_events [OF b] obtain m where
    tb: "tb = ?L # CallAcquire (ID hc) # m" and m: "\<forall>i. CallAcquire i \<notin> set m" and
    cont: "c = Continue \<longrightarrow> (\<exists>m0. m = m0 @ ?W \<and> between_attempts hc m0)"
    by blast
  show ?case
  proof (cases c)
    case (Leave r')
    with b "2.prems"(1) have "t = tb" by simp
    with tb "2.prems"(2) have
      "[?L] @ CallAcquire (ID hc) # m = pre @ CallAcquire i # mid @ CallAcquire j # post"
      by simp
    from split_after [where P = ?P, OF _ _ this] obtain pre' where
      "CallAcquire (ID hc) # m = pre' @ CallAcquire i # mid @ CallAcquire j # post"
      by auto
    with m show ?thesis
      by (cases pre') auto
  next
    case Continue
    with cont obtain m0 where m0: "m = m0 @ ?W" and ba: "between_attempts hc m0"
      by blast
    obtain r1 t' k1 where rec: "Start_loop hc ss' as rs' kb = (r1, t', k1)"
      by (metis prod_cases3)
    from Start_loop_head [of hc ss' as rs' kb] rec obtain t'' where
      t': "t' = ?L # CallAcquire (ID hc) # t''"
      by auto
    from Continue b rec "2.prems"(1) have t: "t = tb @ t'" by simp
    with tb m0 "2.prems"(2) have
      "[?L] @ (CallAcquire (ID hc) # m0 @ ?W @ t') =
       pre @ CallAcquire i # mid @ CallAcquire j # post"
      by simp
    from split_after [where P = ?P, OF _ _ this] obtain pre' where
      pre': "CallAcquire (ID hc) # m0 @ ?W @ t' = pre' @ CallAcquire i # mid @ CallAcquire j # post"
      by auto
    have nm0: "\<forall>x\<in>set (m0 @ ?W). \<not> ?P x"
      using ba by (auto simp: between_attempts_def)
    show ?thesis
    proof (cases pre')
      case Nil
      with pre' t' have
        "(m0 @ ?W @ [?L]) @ CallAcquire (ID hc) # t'' = mid @ CallAcquire j # post"
        by auto
      from split_first_eq [where P = ?P, OF _ _ _ _ this] nm0 "2.prems"(3)
      have "mid = m0 @ ?W @ [?L]"
        by auto
      with ba show ?thesis by simp
    next
      case (Cons x pre'')
      with pre' have "(m0 @ ?W) @ t' = pre'' @ CallAcquire i # mid @ CallAcquire j # post"
        by simp
      from split_after [where P = ?P, OF nm0 _ this] obtain p3 where
        "t' = p3 @ CallAcquire i # mid @ CallAcquire j # post"
        by auto
      from "2.IH" [OF b [symmetric] _ _ _ _ rec this "2.prems"(3)] Continue
      show ?thesis by simp
    qed
  qed
qed

lemma deferred_events: "ev \<in> set (deferred k) \<Longrightarrow> ev = TickerStop WaitTicker \<or> (\<exists>j. ev = Cancel j)"
  by (auto simp: deferred_def)

text \<open>
  Claim C6. Take two consecutive calls of \<open>Acquire\<close> in a run of \<open>Start\<close>, in any
  environment. Whatever the first call returned, the events between them end with the
  restart of the wait ticker (\<open>Stop\<close>, then \<open>NewTicker\<close> with \<open>waitPeriod\<close>), the \<open>select\<close> that
  takes its tick, and the log line of the next attempt; the wait ticker is touched nowhere
  else between the two calls. When a renewal failed in between, the events just before
  the restart are those of the lost lease: log, \<open>cancel\<close>, and \<open>wait\<close> with its timer of
  \<open>randomDelay\<close>, the only timer between the two calls. Otherwise no timer is created
  between them.
\<close>

theorem one_wait_tick_between_attempts:
  assumes "Start hc e = (r, t)"
    and "t = pre @ CallAcquire i # mid @ CallAcquire j # post"
    and "\<forall>i. CallAcquire i \<notin> set mid"
  shows "\<exists>m. mid = m @ [TickerStop WaitTicker, NewTicker WaitTicker (waitPeriod hc), Select Tick,
                        Log Debug ''attempting to acquire lock'' []] \<and>
          (\<forall>d. NewTicker WaitTicker d \<notin> set m) \<and> TickerStop WaitTicker \<notin> set m \<and>
          ((\<exists>e. RetRenew (Some e) \<in> set m) \<longrightarrow>
             (\<exists>m' e k s. m = m' @ [Log Debug ''lease lost'' [e], Cancel k,
                                    NewTimer (randomDelay hc), Select s, TimerStop] \<and>
                         (\<forall>d. NewTimer d \<notin> set m'))) \<and>
          ((\<forall>e. RetRenew (Some e) \<notin> set m) \<longrightarrow> (\<forall>d. NewTimer d \<notin> set m))"
proof -
  let ?P = "\<lambda>ev. \<exists>i. ev = CallAcquire i"
  have acq: "CallAcquire i \<in> set t"
    using assms(2) by simp
  from acq assms(1) obtain s ss1 where ss: "sels e = s # ss1"
    by (cases "sels e") (auto simp: Start_def)
  from acq assms(1) ss have wp: "0 < waitPeriod hc"
    by (auto simp: Start_def split: if_splits)
  obtain r1 tl k where loop: "Start_loop hc ss1 (acqs e) (rens e) 0 = (r1, tl, k)"
    by (metis prod_cases3)
  define d where "d = (if r1 = Blocked then [] else deferred k)"
  have d: "\<forall>x\<in>set d. \<not> ?P x"
    using deferred_events by (auto simp: d_def)
  from assms(1) ss wp loop have
    "t = [NewTimer (randomDelay hc), Select s, TimerStop, NewTicker WaitTicker (waitPeriod hc)] @
         (tl @ d)"
    by (auto simp: Start_def d_def)
  with assms(2) have
    "[NewTimer (randomDelay hc), Select s, TimerStop, NewTicker WaitTicker (waitPeriod hc)] @
       (tl @ d) = pre @ CallAcquire i # mid @ CallAcquire j # post"
    by simp
  from split_after [where P = ?P, OF _ _ this] obtain pre' where
    "tl @ d = (pre' @ CallAcquire i # mid) @ CallAcquire j # post"
    by auto
  from split_before [where P = ?P, OF d _ this] obtain post' where
    "tl = pre' @ CallAcquire i # mid @ CallAcquire j # post'"
    by auto
  from Start_loop_between [OF loop this assms(3)] show ?thesis
    unfolding between_attempts_def jittered_def by blast
qed

theorem one_wait_tick_between_attempts_witness:
  "Start hac1 env1 =
     (Ret None,
      [NewTimer 0, Select Tick, TimerStop, NewTicker WaitTicker 11000000,
       Log Debug ''attempting to acquire lock'' []] @
      CallAcquire ''hac1'' #
      [RetAcquire [] (Some ''backend down''),
       Log Error ''unable to get lock'' [''backend down''],
       TickerStop WaitTicker, NewTicker WaitTicker 11000000, Select Tick,
       Log Debug ''attempting to acquire lock'' []] @
      CallAcquire ''hac1'' #
      [RetAcquire ''lockID'' None, Log Debug ''lock acquired, ID'' [''lockID''],
       WithCancel 0, Go 0, NewTicker RenewTicker 7000000, Select Tick,
       Log Debug ''renewing lease'' [], CallRenew, RetRenew (Some ''lease lost''),
       TickerStop RenewTicker, Log Debug ''lease lost'' [''lease lost''], Cancel 0,
       NewTimer 0, Select Tick, TimerStop, TickerStop WaitTicker,
       NewTicker WaitTicker 11000000, Select Done,
       Log Debug ''context canceled, returning'' [], Cancel 0,
       TickerStop WaitTicker]) \<and>
   (\<exists>m. [RetAcquire [] (Some ''backend down''),
         Log Error ''unable to get lock'' [''backend down''],
         TickerStop WaitTicker, NewTicker WaitTicker 11000000, Select Tick,
         Log Debug ''attempting to acquire lock'' []] =
        m @ [TickerStop WaitTicker, NewTicker WaitTicker (waitPeriod hac1), Select Tick,
             Log Debug ''attempting to acquire lock'' []] \<and>
        (\<forall>d. NewTimer d \<notin> set m))"
proof -
  let ?mid = "[RetAcquire [] (Some ''backend down''),
       Log Error ''unable to get lock'' [''backend down''],
       TickerStop WaitTicker, NewTicker WaitTicker 11000000, Select Tick,
       Log Debug ''attempting to acquire lock'' []]"
  have run: "Start hac1 env1 =
     (Ret None,
      [NewTimer 0, Select Tick, TimerStop, NewTicker WaitTicker 11000000,
       Log Debug ''attempting to acquire lock'' []] @
      CallAcquire ''hac1'' # ?mid @
      CallAcquire ''hac1'' #
      [RetAcquire ''lockID'' None, Log Debug ''lock acquired, ID'' [''lockID''],
       WithCancel 0, Go 0, NewTicker RenewTicker 7000000, Select Tick,
       Log Debug ''renewing lease'' [], CallRenew, RetRenew (Some ''lease lost''),
       TickerStop RenewTicker, Log Debug ''lease lost'' [''lease lost''], Cancel 0,
       NewTimer 0, Select Tick, TimerStop, TickerStop WaitTicker,
       NewTicker WaitTicker 11000000, Select Done,
       Log Debug ''context canceled, returning'' [], Cancel 0,
       TickerStop WaitTicker])"
    by code_simp
  have mid: "\<forall>i. CallAcquire i \<notin> set ?mid"
    by simp
  have nr: "\<forall>e. RetRenew (Some e) \<notin> set ?mid"
    by simp
  from one_wait_tick_between_attempts [OF run refl mid] obtain m where
    m: "?mid = m @ [TickerStop WaitTicker, NewTicker WaitTicker (waitPeriod hac1), Select Tick,
             Log Debug ''attempting to acquire lock'' []]" and
    j: "(\<forall>e. RetRenew (Some e) \<notin> set m) \<longrightarrow> (\<forall>d. NewTimer d \<notin> set m)"
    by blast
  from m have "set m \<subseteq> set ?mid"
    by (metis set_append sup_ge1)
  with nr j have "\<forall>d. NewTimer d \<notin> set m"
    by blast
  with m run show ?thesis
    by blast
qed

end
